theory Spec2Isabelle
  imports
    Main
    "HOL-Library.Char_ord"
    "HOL-Library.List_Lexorder"
    "HOL-Library.Sublist"
    "HOL-Library.Word"
begin

section \<open>The standard containers the class is built on\<close>

text \<open>
  \<^verbatim>\<open>MultiSetMap.h\<close> holds one member,
  \<^verbatim>\<open>std::map<Key, std::set<Value, SetCompare>, MapCompare> map_\<close>.
  An ordered container is modelled by the sequence of its elements in iteration order,
  an iterator by its position in that sequence (\<open>begin()\<close> is \<open>0\<close>, \<open>end()\<close> is the
  length), and a comparator by a binary predicate.
\<close>

type_synonym 'a compare = "'a \<Rightarrow> 'a \<Rightarrow> bool"

type_synonym 'v std_set = "'v list"

type_synonym ('k, 'v) std_map = "('k \<times> 'v std_set) list"

text \<open>Two elements are the same to a comparator when neither is less than the other.\<close>

definition equivalent :: "'a compare \<Rightarrow> 'a \<Rightarrow> 'a \<Rightarrow> bool" where
  "equivalent lt a b \<longleftrightarrow> \<not> lt a b \<and> \<not> lt b a"

text \<open>The requirement the standard puts on every comparator (\<open>Compare\<close>).\<close>

definition strict_weak_order :: "'a compare \<Rightarrow> bool" where
  "strict_weak_order lt \<longleftrightarrow>
     (\<forall>a. \<not> lt a a) \<and>
     (\<forall>a b c. lt a b \<longrightarrow> lt b c \<longrightarrow> lt a c) \<and>
     (\<forall>a b c. equivalent lt a b \<longrightarrow> equivalent lt b c \<longrightarrow> equivalent lt a c)"

text \<open>
  \<^verbatim>\<open>std::less<T>\<close>: the type's own \<open><\<close>. On \<^verbatim>\<open>std::string\<close> that is the
  lexicographic order with the characters compared as unsigned bytes, which is the order
  of \<open>string\<close> here.
\<close>

definition std_less :: "'a::ord compare" where
  "std_less a b \<longleftrightarrow> a < b"

subsection \<open>\<^verbatim>\<open>std::set<Value, SetCompare>\<close>\<close>

text \<open>Position of the first element that is not less than \<open>v\<close>.\<close>

definition set_lower_bound :: "'v compare \<Rightarrow> 'v std_set \<Rightarrow> 'v \<Rightarrow> nat" where
  "set_lower_bound lt s v = length (takeWhile (\<lambda>x. lt x v) s)"

definition set_find :: "'v compare \<Rightarrow> 'v std_set \<Rightarrow> 'v \<Rightarrow> nat" where
  "set_find lt s v =
     (let it = set_lower_bound lt s v
      in if it = length s \<or> lt v (s ! it) then length s else it)"

text \<open>\<open>insert\<close> keeps the set as it is when an equivalent element is there.\<close>

definition set_insert :: "'v compare \<Rightarrow> 'v std_set \<Rightarrow> 'v \<Rightarrow> 'v std_set" where
  "set_insert lt s v =
     (let it = set_lower_bound lt s v
      in if it = length s \<or> lt v (s ! it) then take it s @ v # drop it s else s)"

definition set_erase :: "'v compare \<Rightarrow> 'v std_set \<Rightarrow> 'v \<Rightarrow> 'v std_set" where
  "set_erase lt s v =
     (let it = set_find lt s v
      in if it = length s then s else take it s @ drop (Suc it) s)"

subsection \<open>\<^verbatim>\<open>std::map<Key, std::set<Value, SetCompare>, MapCompare>\<close>\<close>

definition lower_bound :: "'k compare \<Rightarrow> ('k, 'v) std_map \<Rightarrow> 'k \<Rightarrow> nat" where
  "lower_bound lt m key = length (takeWhile (\<lambda>e. lt (fst e) key) m)"

definition map_find :: "'k compare \<Rightarrow> ('k, 'v) std_map \<Rightarrow> 'k \<Rightarrow> nat" where
  "map_find lt m key =
     (let it = lower_bound lt m key
      in if it = length m \<or> lt key (fst (m ! it)) then length m else it)"

text \<open>
  \<open>operator[]\<close>: the entry of \<open>key\<close>, created with an empty set when the key is absent.
  It returns the map and the position of the entry.
\<close>

definition map_subscript ::
  "'k compare \<Rightarrow> ('k, 'v) std_map \<Rightarrow> 'k \<Rightarrow> ('k, 'v) std_map \<times> nat" where
  "map_subscript lt m key =
     (let it = lower_bound lt m key
      in if it = length m \<or> lt key (fst (m ! it))
         then (take it m @ (key, []) # drop it m, it)
         else (m, it))"

text \<open>\<open>erase(iterator)\<close> and \<open>erase(key)\<close>.\<close>

definition map_erase_at :: "('k, 'v) std_map \<Rightarrow> nat \<Rightarrow> ('k, 'v) std_map" where
  "map_erase_at m it = take it m @ drop (Suc it) m"

definition map_erase :: "'k compare \<Rightarrow> ('k, 'v) std_map \<Rightarrow> 'k \<Rightarrow> ('k, 'v) std_map" where
  "map_erase lt m key =
     (let it = map_find lt m key
      in if it = length m then m else map_erase_at m it)"

section \<open>MultiSetMap\<close>

text \<open>
  The state of a \<^verbatim>\<open>MultiSetMap<Key, Value, MapCompare, SetCompare>\<close> is its member
  \<^verbatim>\<open>map_\<close>; the two comparators are the parameters \<open>mc\<close> and \<open>sc\<close> of every operation.
\<close>

type_synonym ('k, 'v) MultiSetMap = "('k, 'v) std_map"

text \<open>\<^verbatim>\<open>inline static const std::set<Value, SetCompare> emptySet{}\<close>\<close>

definition emptySet :: "'v std_set" where
  "emptySet = []"

text \<open>\<^verbatim>\<open>map_[key].insert(value);\<close>\<close>

definition add ::
  "'k compare \<Rightarrow> 'v compare \<Rightarrow> ('k, 'v) MultiSetMap \<Rightarrow> 'k \<Rightarrow> 'v \<Rightarrow> ('k, 'v) MultiSetMap" where
  "add mc sc m key value =
     (let (m', it) = map_subscript mc m key
      in m'[it := (fst (m' ! it), set_insert sc (snd (m' ! it)) value)])"

text \<open>\<^verbatim>\<open>remove(const Key& key)\<close>: \<^verbatim>\<open>map_.erase(key);\<close>\<close>

definition remove_key ::
  "'k compare \<Rightarrow> ('k, 'v) MultiSetMap \<Rightarrow> 'k \<Rightarrow> ('k, 'v) MultiSetMap" where
  "remove_key mc m key = map_erase mc m key"

text \<open>
  \<^verbatim>\<open>remove(const Key& key, const Value& value)\<close>: nothing when the key is not found;
  otherwise the value is erased from the set and the entry is erased when its set is empty.
\<close>

definition remove_value ::
  "'k compare \<Rightarrow> 'v compare \<Rightarrow> ('k, 'v) MultiSetMap \<Rightarrow> 'k \<Rightarrow> 'v \<Rightarrow> ('k, 'v) MultiSetMap" where
  "remove_value mc sc m key value =
     (let it = map_find mc m key
      in if it = length m then m
         else let m' = m[it := (fst (m ! it), set_erase sc (snd (m ! it)) value)]
              in if snd (m' ! it) = [] then map_erase_at m' it else m')"

text \<open>\<^verbatim>\<open>find\<close>: \<^verbatim>\<open>return it != map_.end() ? it->second : emptySet;\<close>\<close>

definition find_by_key :: "'k compare \<Rightarrow> ('k, 'v) MultiSetMap \<Rightarrow> 'k \<Rightarrow> 'v std_set" where
  "find_by_key mc m key =
     (let it = map_find mc m key
      in if it \<noteq> length m then snd (m ! it) else emptySet)"

subsection \<open>Sequences of operations\<close>

datatype ('k, 'v) operation = Add 'k 'v | Remove 'k | RemoveValue 'k 'v

fun apply_op ::
  "'k compare \<Rightarrow> 'v compare \<Rightarrow> ('k, 'v) MultiSetMap \<Rightarrow> ('k, 'v) operation \<Rightarrow> ('k, 'v) MultiSetMap" where
  "apply_op mc sc m (Add k v) = add mc sc m k v"
| "apply_op mc sc m (Remove k) = remove_key mc m k"
| "apply_op mc sc m (RemoveValue k v) = remove_value mc sc m k v"

text \<open>The container after the operations \<open>ops\<close>, run from the empty container.\<close>

definition run ::
  "'k compare \<Rightarrow> 'v compare \<Rightarrow> ('k, 'v) operation list \<Rightarrow> ('k, 'v) MultiSetMap" where
  "run mc sc ops = foldl (apply_op mc sc) [] ops"

definition no_empty_set :: "('k, 'v) MultiSetMap \<Rightarrow> bool" where
  "no_empty_set m \<longleftrightarrow> (\<forall>e \<in> set m. snd e \<noteq> [])"

definition keys_sorted :: "'k compare \<Rightarrow> ('k, 'v) MultiSetMap \<Rightarrow> bool" where
  "keys_sorted mc m \<longleftrightarrow> sorted_wrt mc (map fst m)"

definition sets_sorted :: "'v compare \<Rightarrow> ('k, 'v) MultiSetMap \<Rightarrow> bool" where
  "sets_sorted sc m \<longleftrightarrow> (\<forall>e \<in> set m. sorted_wrt sc (snd e))"

subsection \<open>The key type\<close>

text \<open>
  \<^verbatim>\<open>findByPrefix\<close> uses three things of the type \<^verbatim>\<open>Key\<close>: the value of
  \<^verbatim>\<open>std::is_same<Key, std::string>::value\<close>, the member \<^verbatim>\<open>starts_with\<close>
  (\<open>starts_with K k p\<close> is \<^verbatim>\<open>k.starts_with(p)\<close>), and the copy of a key whose
  characters have been replaced by
  \<^verbatim>\<open>std::transform(keyLower.begin(), keyLower.end(), keyLower.begin(), ...)\<close> with
  \<^verbatim>\<open>std::tolower\<close>. The last one writes through \<^verbatim>\<open>keyLower.begin()\<close>: it is \<open>None\<close>
  for a key type whose \<^verbatim>\<open>begin()\<close> gives an iterator to constant characters, for which
  the statement is ill-formed.
\<close>

record 'k key_type =
  is_std_string :: bool
  starts_with :: "'k \<Rightarrow> 'k \<Rightarrow> bool"
  transform_tolower :: "('k \<Rightarrow> 'k) option"

text \<open>A program that calls a member whose body is ill-formed for its types is rejected.\<close>

datatype compile_error = Ill_formed

text \<open>
  \<^verbatim>\<open>std::string::starts_with\<close>: the string is at least as long as the prefix and
  its first characters are the prefix.
\<close>

definition string_starts_with :: "string \<Rightarrow> string \<Rightarrow> bool" where
  "string_starts_with s p \<longleftrightarrow> length p \<le> length s \<and> take (length p) s = p"

text \<open>
  \<^verbatim>\<open>std::tolower\<close> on an \<^verbatim>\<open>unsigned char\<close> in the default locale: the letters
  \<open>A\<close> to \<open>Z\<close> (65 to 90) move to \<open>a\<close> to \<open>z\<close>, every other character stays.
\<close>

definition tolower :: "char \<Rightarrow> char" where
  "tolower c =
     (let n = (of_char c :: nat)
      in if 65 \<le> n \<and> n \<le> 90 then char_of (n + 32) else c)"

definition std_string :: "string key_type" where
  "std_string =
     \<lparr>is_std_string = True, starts_with = string_starts_with,
      transform_tolower = Some (map tolower)\<rparr>"

text \<open>
  \<^verbatim>\<open>std::string_view\<close>, a key type that is not \<^verbatim>\<open>std::string\<close> and satisfies the
  concept \<^verbatim>\<open>HasStartsWith\<close>: its \<^verbatim>\<open>starts_with\<close> is that of \<^verbatim>\<open>std::string\<close>, and its
  \<^verbatim>\<open>begin()\<close> is a \<^verbatim>\<open>const_iterator\<close>. A view is modelled by the characters it shows.
\<close>

definition std_string_view :: "string key_type" where
  "std_string_view =
     \<lparr>is_std_string = False, starts_with = string_starts_with,
      transform_tolower = None\<rparr>"

subsection \<open>\<^verbatim>\<open>findByPrefix\<close>\<close>

text \<open>
  The case-sensitive loop:
  \<^verbatim>\<open>while (it != map_.end() && it->first.starts_with(prefix))
  { prefixKVPs.emplace_back(it->first, it->second); ++it; }\<close>
  An iterator never lies beyond \<open>end()\<close>, so \<open>it != map_.end()\<close> is \<open>it < length m\<close>.
\<close>

function scan_prefix ::
  "'k key_type \<Rightarrow> ('k, 'v) MultiSetMap \<Rightarrow> 'k \<Rightarrow> nat \<Rightarrow> ('k \<times> 'v std_set) list
     \<Rightarrow> ('k \<times> 'v std_set) list" where
  "scan_prefix K m pfx it prefixKVPs =
     (if it < length m \<and> starts_with K (fst (m ! it)) pfx
      then scan_prefix K m pfx (Suc it) (prefixKVPs @ [(fst (m ! it), snd (m ! it))])
      else prefixKVPs)"
  by pat_completeness auto
termination
  by (relation "measure (\<lambda>(K, m, pfx, it, prefixKVPs). length m - it)") auto

text \<open>
  The case-insensitive loop over the whole map:
  \<^verbatim>\<open>for (auto it = map_.begin(); it != map_.end(); ++it)\<close>, with both the key and the
  prefix converted to lower case before \<^verbatim>\<open>starts_with\<close>. The parameter \<open>lower\<close> is
  the conversion of the key type.
\<close>

function scan_lower ::
  "'k key_type \<Rightarrow> ('k \<Rightarrow> 'k) \<Rightarrow> ('k, 'v) MultiSetMap \<Rightarrow> 'k \<Rightarrow> nat
     \<Rightarrow> ('k \<times> 'v std_set) list \<Rightarrow> ('k \<times> 'v std_set) list" where
  "scan_lower K lower m pfx it prefixKVPs =
     (if it < length m
      then let keyLower = lower (fst (m ! it));
               prefixLower = lower pfx
           in scan_lower K lower m pfx (Suc it)
                (if starts_with K keyLower prefixLower
                 then prefixKVPs @ [(fst (m ! it), snd (m ! it))]
                 else prefixKVPs)
      else prefixKVPs)"
  by pat_completeness auto
termination
  by (relation "measure (\<lambda>(K, lower, m, pfx, it, prefixKVPs). length m - it)") auto

text \<open>The equations of the two loops are unfolded by hand, one step at a time.\<close>

declare scan_prefix.simps [simp del]

declare scan_lower.simps [simp del]

text \<open>
  \<^verbatim>\<open>findByPrefix\<close> is a member template, instantiated as a whole where it is called.
  The test \<^verbatim>\<open>else if (std::is_same<Key, std::string>::value)\<close> is an ordinary
  \<^verbatim>\<open>if\<close>, so the statements under it are compiled for every key type, also when the
  test is false: a call for a key type without the conversion is \<open>Inl Ill_formed\<close>,
  whatever \<open>caseSensitive\<close> is. Otherwise the call returns \<open>Inr\<close> of the vector.
\<close>

definition findByPrefix ::
  "'k key_type \<Rightarrow> 'k compare \<Rightarrow> ('k, 'v) MultiSetMap \<Rightarrow> 'k \<Rightarrow> bool
     \<Rightarrow> compile_error + ('k \<times> 'v std_set) list" where
  "findByPrefix K mc m pfx caseSensitive =
     (case transform_tolower K of
        None \<Rightarrow> Inl Ill_formed
      | Some lower \<Rightarrow>
          Inr (if caseSensitive then scan_prefix K m pfx (lower_bound mc m pfx) []
               else if is_std_string K then scan_lower K lower m pfx 0 []
               else []))"

subsection \<open>The default template arguments\<close>

text \<open>
  \<^verbatim>\<open>template <typename Key, typename Value,
     typename MapCompare = std::less<Key>, typename SetCompare = std::less<Key>>\<close>
  Both defaults are \<^verbatim>\<open>std::less<Key>\<close>. Its call operator takes two \<^verbatim>\<open>const Key&\<close>, so
  the values of a set are compared after their implicit conversion to \<^verbatim>\<open>Key\<close>, the
  parameter \<open>to_key\<close>.
\<close>

definition default_MapCompare :: "'k::ord compare" where
  "default_MapCompare = std_less"

definition default_SetCompare :: "('v \<Rightarrow> 'k::ord) \<Rightarrow> 'v compare" where
  "default_SetCompare to_key a b = std_less (to_key a) (to_key b)"

text \<open>
  \<^verbatim>\<open>MultiSetMap<unsigned int, unsigned long long>\<close>: the conversion of a 64-bit
  value to the 32-bit key type keeps its low 32 bits.
\<close>

definition to_unsigned_int :: "64 word \<Rightarrow> 32 word" where
  "to_unsigned_int v = ucast v"

section \<open>Recursion equations\<close>

lemma set_insert_Nil: "set_insert lt [] v = [v]"
  by (simp add: set_insert_def set_lower_bound_def)

lemma set_insert_Cons:
  "set_insert lt (x # xs) v =
     (if lt x v then x # set_insert lt xs v
      else if lt v x then v # x # xs else x # xs)"
  by (simp add: set_insert_def set_lower_bound_def Let_def)

lemma set_erase_Nil: "set_erase lt [] v = []"
  by (simp add: set_erase_def set_find_def set_lower_bound_def)

lemma set_erase_Cons:
  "set_erase lt (x # xs) v =
     (if lt x v then x # set_erase lt xs v
      else if lt v x then x # xs else xs)"
  by (simp add: set_erase_def set_find_def set_lower_bound_def Let_def)

lemma lower_bound_Nil: "lower_bound lt [] key = 0"
  by (simp add: lower_bound_def)

lemma lower_bound_Cons:
  "lower_bound lt (e # es) key = (if lt (fst e) key then Suc (lower_bound lt es key) else 0)"
  by (simp add: lower_bound_def)

lemma map_find_Nil: "map_find lt [] key = 0"
  by (simp add: map_find_def lower_bound_def)

lemma map_find_Cons:
  "map_find lt (e # es) key =
     (if lt (fst e) key then Suc (map_find lt es key)
      else if lt key (fst e) then Suc (length es) else 0)"
  by (simp add: map_find_def lower_bound_def Let_def)

lemma map_find_le: "map_find lt m key \<le> length m"
  by (induction m) (simp_all add: map_find_Nil map_find_Cons)

lemma add_Nil: "add mc sc [] k v = [(k, [v])]"
  by (simp add: add_def map_subscript_def lower_bound_def set_insert_Nil)

lemma add_Cons:
  "add mc sc (e # es) k v =
     (if mc (fst e) k then e # add mc sc es k v
      else if mc k (fst e) then (k, [v]) # e # es
      else (fst e, set_insert sc (snd e) v) # es)"
  by (simp add: add_def map_subscript_def lower_bound_def Let_def set_insert_Nil)

lemma remove_key_Nil: "remove_key mc [] k = []"
  by (simp add: remove_key_def map_erase_def map_find_Nil)

lemma remove_key_Cons:
  "remove_key mc (e # es) k =
     (if mc (fst e) k then e # remove_key mc es k
      else if mc k (fst e) then e # es else es)"
  by (simp add: remove_key_def map_erase_def map_find_Cons map_erase_at_def Let_def)

lemma remove_value_Nil: "remove_value mc sc [] k v = []"
  by (simp add: remove_value_def map_find_Nil)

lemma remove_value_Cons:
  "remove_value mc sc (e # es) k v =
     (if mc (fst e) k then e # remove_value mc sc es k v
      else if mc k (fst e) then e # es
      else if set_erase sc (snd e) v = [] then es
      else (fst e, set_erase sc (snd e) v) # es)"
  using map_find_le [of mc es k]
  by (simp add: remove_value_def map_find_Cons map_erase_at_def Let_def)

lemma find_by_key_Nil: "find_by_key mc [] k = emptySet"
  by (simp add: find_by_key_def map_find_Nil)

lemma find_by_key_Cons:
  "find_by_key mc (e # es) k =
     (if mc (fst e) k then find_by_key mc es k
      else if mc k (fst e) then emptySet else snd e)"
  by (simp add: find_by_key_def map_find_Cons Let_def)

section \<open>No entry with an empty set\<close>

lemma set_insert_not_Nil: "set_insert lt s v \<noteq> []"
  by (induction s) (simp_all add: set_insert_Nil set_insert_Cons)

lemma no_empty_set_add: "no_empty_set m \<Longrightarrow> no_empty_set (add mc sc m k v)"
  by (induction m) (simp_all add: no_empty_set_def add_Nil add_Cons set_insert_not_Nil)

lemma no_empty_set_remove_key: "no_empty_set m \<Longrightarrow> no_empty_set (remove_key mc m k)"
  by (induction m) (simp_all add: no_empty_set_def remove_key_Nil remove_key_Cons)

lemma no_empty_set_remove_value:
  "no_empty_set m \<Longrightarrow> no_empty_set (remove_value mc sc m k v)"
  by (induction m) (simp_all add: no_empty_set_def remove_value_Nil remove_value_Cons)

lemma no_empty_set_apply_op: "no_empty_set m \<Longrightarrow> no_empty_set (apply_op mc sc m x)"
  by (cases x) (simp_all add: no_empty_set_add no_empty_set_remove_key no_empty_set_remove_value)

lemma no_empty_set_foldl:
  "no_empty_set m \<Longrightarrow> no_empty_set (foldl (apply_op mc sc) m ops)"
  by (induction ops arbitrary: m) (simp_all add: no_empty_set_apply_op)

lemma no_empty_set_run: "no_empty_set (run mc sc ops)"
  unfolding run_def by (rule no_empty_set_foldl) (simp add: no_empty_set_def)

lemma map_find_nth:
  "map_find mc m k \<noteq> length m \<Longrightarrow> m ! map_find mc m k \<in> set m"
  using map_find_le [of mc m k] by simp

text \<open>
  Claim C1. Whatever sequence of \<open>add\<close>, \<open>remove(key)\<close> and \<open>remove(key, value)\<close> is
  run from the empty container, no entry of the resulting container has an empty set,
  and every key that \<open>find\<close> locates has a set different from the empty set. The
  sequence is arbitrary, so this holds after each operation of a longer sequence.
\<close>

theorem no_empty_entries:
  "(\<forall>e \<in> set (run mc sc ops). snd e \<noteq> []) \<and>
   (\<forall>k. map_find mc (run mc sc ops) k \<noteq> length (run mc sc ops) \<longrightarrow>
        find_by_key mc (run mc sc ops) k \<noteq> emptySet)"
proof -
  let ?m = "run mc sc ops"
  have inv: "\<forall>e \<in> set ?m. snd e \<noteq> []"
    using no_empty_set_run [of mc sc ops] by (simp add: no_empty_set_def)
  have "find_by_key mc ?m k \<noteq> emptySet" if "map_find mc ?m k \<noteq> length ?m" for k
  proof -
    have "?m ! map_find mc ?m k \<in> set ?m"
      using that by (rule map_find_nth)
    with inv have "snd (?m ! map_find mc ?m k) \<noteq> []" by blast
    with that show ?thesis by (simp add: find_by_key_def emptySet_def)
  qed
  with inv show ?thesis by blast
qed

theorem no_empty_entries_witness:
  "run (<) (<) [Add (1::nat) (2::nat), Add 1 3, Add 0 5, RemoveValue 1 2, RemoveValue 0 5] = [(1, [3])] \<and>
   (1, [3]) \<in> set (run (<) (<) [Add (1::nat) (2::nat), Add 1 3, Add 0 5, RemoveValue 1 2, RemoveValue 0 5]) \<and>
   snd (1::nat, [3::nat]) \<noteq> [] \<and>
   map_find (<) (run (<) (<) [Add (1::nat) (2::nat), Add 1 3, Add 0 5, RemoveValue 1 2, RemoveValue 0 5]) 1
     \<noteq> length (run (<) (<) [Add (1::nat) (2::nat), Add 1 3, Add 0 5, RemoveValue 1 2, RemoveValue 0 5]) \<and>
   find_by_key (<) (run (<) (<) [Add (1::nat) (2::nat), Add 1 3, Add 0 5, RemoveValue 1 2, RemoveValue 0 5]) 1
     \<noteq> emptySet"
proof -
  let ?m = "run (<) (<) [Add (1::nat) (2::nat), Add 1 3, Add 0 5, RemoveValue 1 2, RemoveValue 0 5]"
  note inv = no_empty_entries [of "(<)" "(<)"
      "[Add (1::nat) (2::nat), Add 1 3, Add 0 5, RemoveValue 1 2, RemoveValue 0 5]"]
  have a: "?m = [(1, [3])]"
    by code_simp
  have b: "(1, [3]) \<in> set ?m"
    by (simp only: a list.set_intros)
  have c: "snd (1::nat, [3::nat]) \<noteq> []"
    using inv b by blast
  have d: "map_find (<) ?m 1 \<noteq> length ?m"
    by code_simp
  have e: "find_by_key (<) ?m 1 \<noteq> emptySet"
    using inv d by blast
  show ?thesis
    by (rule conjI [OF a conjI [OF b conjI [OF c conjI [OF d e]]]])
qed

section \<open>Comparators\<close>

lemma swo_irrefl: "strict_weak_order lt \<Longrightarrow> \<not> lt a a"
  by (simp add: strict_weak_order_def)

lemma swo_trans: "strict_weak_order lt \<Longrightarrow> lt a b \<Longrightarrow> lt b c \<Longrightarrow> lt a c"
  unfolding strict_weak_order_def by blast

lemma swo_asym: "strict_weak_order lt \<Longrightarrow> lt a b \<Longrightarrow> \<not> lt b a"
  using swo_trans [of lt a b a] swo_irrefl [of lt a] by blast

lemma swo_equivalent_trans:
  "strict_weak_order lt \<Longrightarrow> equivalent lt a b \<Longrightarrow> equivalent lt b c \<Longrightarrow> equivalent lt a c"
  unfolding strict_weak_order_def by blast

lemma equivalent_sym: "equivalent lt a b \<Longrightarrow> equivalent lt b a"
  by (simp add: equivalent_def)

lemma equivalent_refl: "\<not> lt a a \<Longrightarrow> equivalent lt a a"
  by (simp add: equivalent_def)

lemma swo_less_equivalent:
  assumes swo: "strict_weak_order lt" and ab: "lt a b" and bc: "equivalent lt b c"
  shows "lt a c"
proof (rule ccontr)
  assume nac: "\<not> lt a c"
  have "\<not> lt c a"
  proof
    assume "lt c a"
    with swo ab have "lt c b" by (blast intro: swo_trans)
    with bc show False by (simp add: equivalent_def)
  qed
  with nac have "equivalent lt a c" by (simp add: equivalent_def)
  with swo equivalent_sym [OF bc] have "equivalent lt a b"
    by (blast intro: swo_equivalent_trans)
  with ab show False by (simp add: equivalent_def)
qed

lemma swo_equivalent_less:
  assumes swo: "strict_weak_order lt" and ab: "equivalent lt a b" and bc: "lt b c"
  shows "lt a c"
proof (rule ccontr)
  assume nac: "\<not> lt a c"
  have "\<not> lt c a"
  proof
    assume "lt c a"
    with swo bc have "lt b a" by (blast intro: swo_trans)
    with ab show False by (simp add: equivalent_def)
  qed
  with nac have "equivalent lt c a" by (simp add: equivalent_def)
  with swo ab have "equivalent lt c b"
    by (blast intro: swo_equivalent_trans)
  with bc show False by (simp add: equivalent_def)
qed

lemma strict_weak_order_std_less: "strict_weak_order (std_less :: 'a::linorder compare)"
  by (auto simp: strict_weak_order_def equivalent_def std_less_def)

lemma equivalent_std_less: "equivalent (std_less :: 'a::linorder compare) a b \<longleftrightarrow> a = b"
  by (auto simp: equivalent_def std_less_def)

section \<open>add and find\<close>

lemma set_insert_contains:
  "\<not> lt v v \<Longrightarrow> \<exists>x \<in> set (set_insert lt s v). equivalent lt x v"
  by (induction s) (auto simp: set_insert_Nil set_insert_Cons equivalent_def)

lemma find_by_key_add:
  "\<not> mc k k \<Longrightarrow>
   find_by_key mc (add mc sc m k v) k = set_insert sc (find_by_key mc m k) v"
  by (induction m)
     (simp_all add: add_Nil add_Cons find_by_key_Nil find_by_key_Cons emptySet_def set_insert_Nil)

lemma set_insert_idem:
  "\<not> lt v v \<Longrightarrow> set_insert lt (set_insert lt s v) v = set_insert lt s v"
  by (induction s) (simp_all add: set_insert_Nil set_insert_Cons)

lemma add_idem:
  "\<not> mc k k \<Longrightarrow> \<not> sc v v \<Longrightarrow> add mc sc (add mc sc m k v) k v = add mc sc m k v"
  by (induction m) (simp_all add: add_Nil add_Cons set_insert_Nil set_insert_Cons set_insert_idem)

lemma set_insert_member:
  assumes swo: "strict_weak_order lt"
  shows "sorted_wrt lt s \<Longrightarrow> x \<in> set s \<Longrightarrow> equivalent lt x v \<Longrightarrow> set_insert lt s v = s"
proof (induction s)
  case Nil
  then show ?case by simp
next
  case (Cons y ys)
  show ?case
  proof (cases "x = y")
    case True
    with Cons.prems show ?thesis by (simp add: set_insert_Cons equivalent_def)
  next
    case False
    with Cons.prems have x: "x \<in> set ys" and yx: "lt y x" by auto
    from swo yx Cons.prems(3) have "lt y v" by (rule swo_less_equivalent)
    moreover from Cons.prems(1) have "sorted_wrt lt ys" by simp
    ultimately show ?thesis
      using Cons.IH x Cons.prems(3) by (simp add: set_insert_Cons)
  qed
qed

lemma add_member:
  assumes swo: "strict_weak_order sc"
  shows "sets_sorted sc m \<Longrightarrow> x \<in> set (find_by_key mc m k) \<Longrightarrow> equivalent sc x v
           \<Longrightarrow> add mc sc m k v = m"
proof (induction m)
  case Nil
  then show ?case by (simp add: find_by_key_Nil emptySet_def)
next
  case (Cons e es)
  from Cons.prems(1) have ses: "sets_sorted sc es" and se: "sorted_wrt sc (snd e)"
    by (simp_all add: sets_sorted_def)
  show ?case
  proof (cases "mc (fst e) k")
    case True
    with Cons.IH [OF ses] Cons.prems show ?thesis
      by (simp add: add_Cons find_by_key_Cons)
  next
    case False
    with Cons.prems(2) have nk: "\<not> mc k (fst e)" and x: "x \<in> set (snd e)"
      by (auto simp: find_by_key_Cons emptySet_def split: if_splits)
    from set_insert_member [OF swo se x Cons.prems(3)] False nk show ?thesis
      by (simp add: add_Cons)
  qed
qed

section \<open>find\<close>

lemma find_by_key_absent:
  "\<forall>e \<in> set m. \<not> equivalent mc (fst e) k \<Longrightarrow> find_by_key mc m k = emptySet"
  by (induction m) (auto simp: find_by_key_Nil find_by_key_Cons equivalent_def)

lemma find_by_key_present:
  assumes swo: "strict_weak_order mc"
  shows "keys_sorted mc m \<Longrightarrow> e \<in> set m \<Longrightarrow> equivalent mc (fst e) k
           \<Longrightarrow> find_by_key mc m k = snd e"
proof (induction m)
  case Nil
  then show ?case by simp
next
  case (Cons a as)
  show ?case
  proof (cases "e = a")
    case True
    with Cons.prems(3) show ?thesis by (simp add: find_by_key_Cons equivalent_def)
  next
    case False
    with Cons.prems have e: "e \<in> set as" and ae: "mc (fst a) (fst e)"
      by (auto simp: keys_sorted_def)
    from swo ae Cons.prems(3) have "mc (fst a) k" by (rule swo_less_equivalent)
    moreover from Cons.prems(1) have "keys_sorted mc as" by (simp add: keys_sorted_def)
    ultimately show ?thesis
      using Cons.IH e Cons.prems(3) by (simp add: find_by_key_Cons)
  qed
qed

section \<open>remove\<close>

lemma remove_key_absent:
  "\<forall>e \<in> set m. \<not> equivalent mc (fst e) k \<Longrightarrow> remove_key mc m k = m"
  by (induction m) (auto simp: remove_key_Nil remove_key_Cons equivalent_def)

lemma remove_value_key_absent:
  "\<forall>e \<in> set m. \<not> equivalent mc (fst e) k \<Longrightarrow> remove_value mc sc m k v = m"
  by (induction m) (auto simp: remove_value_Nil remove_value_Cons equivalent_def)

lemma set_erase_absent:
  "\<forall>x \<in> set s. \<not> equivalent lt x v \<Longrightarrow> set_erase lt s v = s"
  by (induction s) (auto simp: set_erase_Nil set_erase_Cons equivalent_def)

lemma remove_value_absent:
  "no_empty_set m \<Longrightarrow> \<forall>x \<in> set (find_by_key mc m k). \<not> equivalent sc x v
     \<Longrightarrow> remove_value mc sc m k v = m"
proof (induction m)
  case Nil
  then show ?case by (simp add: remove_value_Nil)
next
  case (Cons e es)
  from Cons.prems(1) have ne: "snd e \<noteq> []" and nes: "no_empty_set es"
    by (simp_all add: no_empty_set_def)
  show ?case
  proof (cases "mc (fst e) k")
    case True
    with Cons.IH [OF nes] Cons.prems(2) show ?thesis
      by (simp add: remove_value_Cons find_by_key_Cons)
  next
    case False
    show ?thesis
    proof (cases "mc k (fst e)")
      case True
      with False show ?thesis by (simp add: remove_value_Cons)
    next
      case nk: False
      with False Cons.prems(2) have "\<forall>x \<in> set (snd e). \<not> equivalent sc x v"
        by (simp add: find_by_key_Cons)
      then have "set_erase sc (snd e) v = snd e" by (rule set_erase_absent)
      with False nk ne show ?thesis by (simp add: remove_value_Cons)
    qed
  qed
qed

section \<open>The containers stay sorted\<close>

lemma set_set_insert: "set (set_insert lt s v) \<subseteq> insert v (set s)"
  by (induction s) (auto simp: set_insert_Nil set_insert_Cons)

lemma set_set_erase: "set (set_erase lt s v) \<subseteq> set s"
  by (induction s) (auto simp: set_erase_Nil set_erase_Cons)

lemma sorted_wrt_set_insert:
  assumes swo: "strict_weak_order lt"
  shows "sorted_wrt lt s \<Longrightarrow> sorted_wrt lt (set_insert lt s v)"
proof (induction s)
  case Nil
  then show ?case by (simp add: set_insert_Nil)
next
  case (Cons x xs)
  then have IH: "sorted_wrt lt (set_insert lt xs v)" and xs: "\<forall>y \<in> set xs. lt x y"
    by simp_all
  show ?case
  proof (cases "lt x v")
    case True
    with xs set_set_insert [of lt xs v] have "\<forall>y \<in> set (set_insert lt xs v). lt x y"
      by auto
    with True IH show ?thesis by (simp add: set_insert_Cons)
  next
    case False
    from xs have "lt v x \<Longrightarrow> \<forall>y \<in> set xs. lt v y"
      using swo_trans [OF swo] by blast
    with False Cons.prems show ?thesis by (auto simp: set_insert_Cons)
  qed
qed

lemma sorted_wrt_set_erase: "sorted_wrt lt s \<Longrightarrow> sorted_wrt lt (set_erase lt s v)"
proof (induction s)
  case Nil
  then show ?case by (simp add: set_erase_Nil)
next
  case (Cons x xs)
  with set_set_erase [of lt xs v] show ?case
    by (auto simp: set_erase_Cons)
qed

lemma keys_add: "fst ` set (add mc sc m k v) \<subseteq> insert k (fst ` set m)"
  by (induction m) (auto simp: add_Nil add_Cons)

lemma keys_remove_key: "fst ` set (remove_key mc m k) \<subseteq> fst ` set m"
  by (induction m) (auto simp: remove_key_Nil remove_key_Cons)

lemma keys_remove_value: "fst ` set (remove_value mc sc m k v) \<subseteq> fst ` set m"
  by (induction m) (auto simp: remove_value_Nil remove_value_Cons)

lemma keys_sorted_Cons:
  "keys_sorted mc (e # es) \<longleftrightarrow> (\<forall>x \<in> fst ` set es. mc (fst e) x) \<and> keys_sorted mc es"
  by (auto simp: keys_sorted_def)

lemma keys_sorted_add:
  assumes swo: "strict_weak_order mc"
  shows "keys_sorted mc m \<Longrightarrow> keys_sorted mc (add mc sc m k v)"
proof (induction m)
  case Nil
  then show ?case by (simp add: add_Nil keys_sorted_def)
next
  case (Cons e es)
  then have IH: "keys_sorted mc (add mc sc es k v)" and es: "\<forall>x \<in> fst ` set es. mc (fst e) x"
    by (simp_all add: keys_sorted_Cons)
  show ?case
  proof (cases "mc (fst e) k")
    case True
    with es keys_add [of mc sc es k v] have "\<forall>x \<in> fst ` set (add mc sc es k v). mc (fst e) x"
      by blast
    with True IH show ?thesis by (simp add: add_Cons keys_sorted_Cons)
  next
    case False
    from es have "mc k (fst e) \<Longrightarrow> \<forall>x \<in> fst ` set es. mc k x"
      using swo_trans [OF swo] by blast
    with False Cons.prems show ?thesis
      by (simp add: add_Cons keys_sorted_Cons)
  qed
qed

lemma keys_sorted_remove_key: "keys_sorted mc m \<Longrightarrow> keys_sorted mc (remove_key mc m k)"
proof (induction m)
  case Nil
  then show ?case by (simp add: remove_key_Nil)
next
  case (Cons e es)
  then have IH: "keys_sorted mc (remove_key mc es k)" and es: "\<forall>x \<in> fst ` set es. mc (fst e) x"
    by (simp_all add: keys_sorted_Cons)
  from es keys_remove_key [of mc es k] have "\<forall>x \<in> fst ` set (remove_key mc es k). mc (fst e) x"
    by blast
  with IH Cons.prems show ?case
    by (simp add: remove_key_Cons keys_sorted_Cons)
qed

lemma keys_sorted_remove_value:
  "keys_sorted mc m \<Longrightarrow> keys_sorted mc (remove_value mc sc m k v)"
proof (induction m)
  case Nil
  then show ?case by (simp add: remove_value_Nil)
next
  case (Cons e es)
  then have IH: "keys_sorted mc (remove_value mc sc es k v)"
    and es: "\<forall>x \<in> fst ` set es. mc (fst e) x"
    by (simp_all add: keys_sorted_Cons)
  from es keys_remove_value [of mc sc es k v]
  have "\<forall>x \<in> fst ` set (remove_value mc sc es k v). mc (fst e) x"
    by blast
  with IH Cons.prems show ?case
    by (simp add: remove_value_Cons keys_sorted_Cons)
qed

lemma sets_sorted_add:
  assumes swo: "strict_weak_order sc"
  shows "sets_sorted sc m \<Longrightarrow> sets_sorted sc (add mc sc m k v)"
  by (induction m)
     (simp_all add: sets_sorted_def add_Nil add_Cons sorted_wrt_set_insert [OF swo])

lemma sets_sorted_remove_key: "sets_sorted sc m \<Longrightarrow> sets_sorted sc (remove_key mc m k)"
  by (induction m) (simp_all add: sets_sorted_def remove_key_Nil remove_key_Cons)

lemma sets_sorted_remove_value:
  "sets_sorted sc m \<Longrightarrow> sets_sorted sc (remove_value mc sc m k v)"
  by (induction m)
     (simp_all add: sets_sorted_def remove_value_Nil remove_value_Cons sorted_wrt_set_erase)

lemma sorted_apply_op:
  assumes "strict_weak_order mc" and "strict_weak_order sc"
  shows "keys_sorted mc m \<and> sets_sorted sc m
           \<Longrightarrow> keys_sorted mc (apply_op mc sc m x) \<and> sets_sorted sc (apply_op mc sc m x)"
  using assms
  by (cases x)
     (simp_all add: keys_sorted_add keys_sorted_remove_key keys_sorted_remove_value
        sets_sorted_add sets_sorted_remove_key sets_sorted_remove_value)

lemma sorted_foldl:
  assumes "strict_weak_order mc" and "strict_weak_order sc"
  shows "keys_sorted mc m \<and> sets_sorted sc m
           \<Longrightarrow> keys_sorted mc (foldl (apply_op mc sc) m ops) \<and>
               sets_sorted sc (foldl (apply_op mc sc) m ops)"
proof (induction ops arbitrary: m)
  case Nil
  then show ?case by simp
next
  case (Cons x xs)
  from sorted_apply_op [OF assms Cons.prems] show ?case
    by (simp add: Cons.IH)
qed

lemma sorted_run:
  assumes "strict_weak_order mc" and "strict_weak_order sc"
  shows "keys_sorted mc (run mc sc ops) \<and> sets_sorted sc (run mc sc ops)"
  unfolding run_def
  by (rule sorted_foldl [OF assms]) (simp add: keys_sorted_def sets_sorted_def)

text \<open>
  Every container built by the operations from the empty one has its keys in the order of
  the key comparator; with the default comparator no condition is left.
\<close>

lemma keys_sorted_apply_op:
  "strict_weak_order mc \<Longrightarrow> keys_sorted mc m \<Longrightarrow> keys_sorted mc (apply_op mc sc m x)"
  by (cases x) (simp_all add: keys_sorted_add keys_sorted_remove_key keys_sorted_remove_value)

lemma keys_sorted_foldl:
  "strict_weak_order mc \<Longrightarrow> keys_sorted mc m \<Longrightarrow> keys_sorted mc (foldl (apply_op mc sc) m ops)"
  by (induction ops arbitrary: m) (simp_all add: keys_sorted_apply_op)

lemma keys_sorted_run_default:
  "keys_sorted default_MapCompare (run (default_MapCompare :: 'k::linorder compare) sc ops)"
  unfolding run_def default_MapCompare_def
  by (rule keys_sorted_foldl [OF strict_weak_order_std_less]) (simp add: keys_sorted_def)

section \<open>Claims about add, find and remove\<close>

text \<open>
  Claim C5. With comparators that are strict weak orders, the set that \<open>find(k)\<close> returns
  right after \<open>add(k, v)\<close> has a member that the value comparator cannot tell from \<open>v\<close>.
\<close>

theorem add_find_consistency:
  assumes "strict_weak_order mc" and "strict_weak_order sc"
  shows "\<exists>x \<in> set (find_by_key mc (add mc sc m k v) k). equivalent sc x v"
proof -
  from assms have "\<not> mc k k" and "\<not> sc v v" by (simp_all add: swo_irrefl)
  then show ?thesis by (simp add: find_by_key_add set_insert_contains)
qed

lemma strict_weak_order_div:
  "strict_weak_order (\<lambda>a b :: nat. a div 10 < b div 10)"
  by (auto simp: strict_weak_order_def equivalent_def)

theorem add_find_consistency_witness:
  "strict_weak_order (std_less :: nat compare) \<and>
   strict_weak_order (\<lambda>a b :: nat. a div 10 < b div 10) \<and>
   find_by_key std_less (add std_less (\<lambda>a b. a div 10 < b div 10) [(1 :: nat, [12 :: nat])] 1 17) 1 = [12] \<and>
   (\<exists>x \<in> set (find_by_key std_less
       (add std_less (\<lambda>a b. a div 10 < b div 10) [(1 :: nat, [12 :: nat])] 1 17) 1).
      equivalent (\<lambda>a b. a div 10 < b div 10) x 17)"
proof -
  have a: "strict_weak_order (std_less :: nat compare)"
    by (rule strict_weak_order_std_less)
  have b: "strict_weak_order (\<lambda>a b :: nat. a div 10 < b div 10)"
    by (rule strict_weak_order_div)
  have c: "find_by_key std_less
      (add std_less (\<lambda>a b. a div 10 < b div 10) [(1 :: nat, [12 :: nat])] 1 17) 1 = [12]"
    by code_simp
  show ?thesis
    by (rule conjI [OF a conjI [OF b conjI [OF c add_find_consistency [OF a b]]]])
qed

text \<open>
  Claim C6. \<open>find\<close> always returns a set: in a container whose keys are in the order
  of a strict weak order \<open>mc\<close>, it returns the set stored with the key when an entry has
  a key that \<open>mc\<close> cannot tell from \<open>k\<close>, and the empty set when no entry has.
  The function is total, so there is no other outcome. The containers built by the
  operations have their keys in that order (\<open>sorted_run\<close>).
\<close>

theorem find_total:
  assumes "strict_weak_order mc" and "keys_sorted mc m"
  shows "(\<forall>e \<in> set m. equivalent mc (fst e) k \<longrightarrow> find_by_key mc m k = snd e) \<and>
         ((\<forall>e \<in> set m. \<not> equivalent mc (fst e) k) \<longrightarrow> find_by_key mc m k = emptySet)"
  using assms by (blast intro: find_by_key_present find_by_key_absent)

theorem find_total_witness:
  "strict_weak_order (std_less :: nat compare) \<and>
   keys_sorted std_less [(2 :: nat, [2 :: nat]), (3, [4, 5])] \<and>
   (3, [4, 5]) \<in> set [(2 :: nat, [2 :: nat]), (3, [4, 5])] \<and>
   equivalent std_less (fst (3 :: nat, [4 :: nat, 5])) 3 \<and>
   find_by_key std_less [(2 :: nat, [2 :: nat]), (3, [4, 5])] 3 = snd (3 :: nat, [4 :: nat, 5]) \<and>
   find_by_key std_less [(2 :: nat, [2 :: nat]), (3, [4, 5])] 7 = emptySet"
proof -
  have a: "strict_weak_order (std_less :: nat compare)"
    by (rule strict_weak_order_std_less)
  have b: "keys_sorted std_less [(2 :: nat, [2 :: nat]), (3, [4, 5])]"
    by (simp add: keys_sorted_def std_less_def)
  have p: "(3, [4, 5]) \<in> set [(2 :: nat, [2 :: nat]), (3, [4, 5])]"
    by simp
  have q: "equivalent std_less (fst (3 :: nat, [4 :: nat, 5])) 3"
    by (simp add: equivalent_std_less)
  have c: "find_by_key std_less [(2 :: nat, [2 :: nat]), (3, [4, 5])] 3 = snd (3 :: nat, [4 :: nat, 5])"
    using find_total [OF a b, of 3] p q by blast
  have r: "\<forall>e \<in> set [(2 :: nat, [2 :: nat]), (3, [4, 5])]. \<not> equivalent std_less (fst e) 7"
    by (simp add: equivalent_std_less)
  have d: "find_by_key std_less [(2 :: nat, [2 :: nat]), (3, [4, 5])] 7 = emptySet"
    using find_total [OF a b, of 7] r by blast
  from a b p q c d show ?thesis by blast
qed

text \<open>
  Claim C7. In a container without an empty set, \<open>remove(k)\<close> and \<open>remove(k, v)\<close> return
  the container as it was when no entry has a key that the key comparator cannot tell from
  \<open>k\<close>, and \<open>remove(k, v)\<close> returns it as it was when the set that \<open>find(k)\<close> returns has
  no member that the value comparator cannot tell from \<open>v\<close>. The containers built
  by the operations are without an empty set (\<open>no_empty_set_run\<close>).
\<close>

theorem remove_absent_unchanged:
  assumes "no_empty_set m"
  shows "((\<forall>e \<in> set m. \<not> equivalent mc (fst e) k) \<longrightarrow>
            remove_key mc m k = m \<and> remove_value mc sc m k v = m) \<and>
         ((\<forall>x \<in> set (find_by_key mc m k). \<not> equivalent sc x v) \<longrightarrow>
            remove_value mc sc m k v = m)"
  using assms by (simp add: remove_key_absent remove_value_key_absent remove_value_absent)

theorem remove_absent_unchanged_witness:
  "no_empty_set [(2 :: nat, [2 :: nat]), (3, [4, 5])] \<and>
   remove_key std_less [(2 :: nat, [2 :: nat]), (3, [4, 5])] 9 = [(2, [2]), (3, [4, 5])] \<and>
   remove_value std_less std_less [(2 :: nat, [2 :: nat]), (3, [4, 5])] 9 4 = [(2, [2]), (3, [4, 5])] \<and>
   find_by_key std_less [(2 :: nat, [2 :: nat]), (3, [4, 5])] 3 = [4, 5] \<and>
   remove_value std_less std_less [(2 :: nat, [2 :: nat]), (3, [4, 5])] 3 6 = [(2, [2]), (3, [4, 5])]"
proof -
  have a: "no_empty_set [(2 :: nat, [2 :: nat]), (3, [4, 5])]"
    by (simp add: no_empty_set_def)
  have p: "\<forall>e \<in> set [(2 :: nat, [2 :: nat]), (3, [4, 5])]. \<not> equivalent std_less (fst e) 9"
    by (simp add: equivalent_std_less)
  have b: "remove_key std_less [(2 :: nat, [2 :: nat]), (3, [4, 5])] 9 = [(2, [2]), (3, [4, 5])] \<and>
      remove_value std_less std_less [(2 :: nat, [2 :: nat]), (3, [4, 5])] 9 4 = [(2, [2]), (3, [4, 5])]"
    using remove_absent_unchanged [OF a, of std_less 9 std_less 4] p by blast
  have f: "find_by_key std_less [(2 :: nat, [2 :: nat]), (3, [4, 5])] 3 = [4, 5]"
    by code_simp
  have q: "\<forall>x \<in> set (find_by_key std_less [(2 :: nat, [2 :: nat]), (3, [4, 5])] 3).
      \<not> equivalent std_less x 6"
    by (simp add: f equivalent_std_less)
  have c: "remove_value std_less std_less [(2 :: nat, [2 :: nat]), (3, [4, 5])] 3 6 = [(2, [2]), (3, [4, 5])]"
    using remove_absent_unchanged [OF a, of std_less 3 std_less 6] q by blast
  from a b f c show ?thesis by blast
qed

text \<open>
  Claim C8. With comparators that are strict weak orders, a second \<open>add(k, v)\<close> returns
  the container the first one returned, so \<open>find\<close> returns the same set for every key;
  and \<open>add(k, v)\<close> returns the container as it was when the set that \<open>find(k)\<close> returns,
  in a container whose sets are in the order of the value comparator, has a member that
  the comparator cannot tell from \<open>v\<close>.
\<close>

theorem add_idempotent:
  assumes "strict_weak_order mc" and "strict_weak_order sc"
  shows "add mc sc (add mc sc m k v) k v = add mc sc m k v \<and>
         (\<forall>k'. find_by_key mc (add mc sc (add mc sc m k v) k v) k' =
                find_by_key mc (add mc sc m k v) k') \<and>
         (sets_sorted sc m \<longrightarrow> (\<exists>x \<in> set (find_by_key mc m k). equivalent sc x v) \<longrightarrow>
            add mc sc m k v = m)"
proof -
  from assms have "\<not> mc k k" and "\<not> sc v v" by (simp_all add: swo_irrefl)
  then have "add mc sc (add mc sc m k v) k v = add mc sc m k v" by (rule add_idem)
  moreover have "add mc sc m k v = m"
    if "sets_sorted sc m" and "\<exists>x \<in> set (find_by_key mc m k). equivalent sc x v"
  proof -
    from that(2) obtain x where "x \<in> set (find_by_key mc m k)" and "equivalent sc x v"
      by blast
    with that(1) show ?thesis by (rule add_member [OF assms(2)])
  qed
  ultimately show ?thesis by simp
qed

theorem add_idempotent_witness:
  "strict_weak_order (std_less :: nat compare) \<and>
   strict_weak_order (\<lambda>a b :: nat. a div 10 < b div 10) \<and>
   sets_sorted (\<lambda>a b :: nat. a div 10 < b div 10) [(4 :: nat, [12, 25])] \<and>
   find_by_key std_less [(4 :: nat, [12 :: nat, 25])] 4 = [12, 25] \<and>
   equivalent (\<lambda>a b :: nat. a div 10 < b div 10) 12 17 \<and>
   add std_less (\<lambda>a b :: nat. a div 10 < b div 10) [(4 :: nat, [12, 25])] 4 17 = [(4, [12, 25])] \<and>
   add std_less (\<lambda>a b :: nat. a div 10 < b div 10)
     (add std_less (\<lambda>a b :: nat. a div 10 < b div 10) [(4 :: nat, [12, 25])] 2 17) 2 17 =
     add std_less (\<lambda>a b :: nat. a div 10 < b div 10) [(4 :: nat, [12, 25])] 2 17"
proof -
  have a: "strict_weak_order (std_less :: nat compare)"
    by (rule strict_weak_order_std_less)
  have b: "strict_weak_order (\<lambda>a b :: nat. a div 10 < b div 10)"
    by (rule strict_weak_order_div)
  have c: "sets_sorted (\<lambda>a b :: nat. a div 10 < b div 10) [(4 :: nat, [12, 25])]"
    by (simp add: sets_sorted_def)
  have f: "find_by_key std_less [(4 :: nat, [12 :: nat, 25])] 4 = [12, 25]"
    by code_simp
  have e: "equivalent (\<lambda>a b :: nat. a div 10 < b div 10) 12 17"
    by (simp add: equivalent_def)
  have d: "add std_less (\<lambda>a b :: nat. a div 10 < b div 10) [(4 :: nat, [12, 25])] 4 17 = [(4, [12, 25])]"
    using add_idempotent [OF a b, of "[(4, [12, 25])]" 4 17] c e by (simp add: f)
  have g: "add std_less (\<lambda>a b :: nat. a div 10 < b div 10)
     (add std_less (\<lambda>a b :: nat. a div 10 < b div 10) [(4 :: nat, [12, 25])] 2 17) 2 17 =
     add std_less (\<lambda>a b :: nat. a div 10 < b div 10) [(4 :: nat, [12, 25])] 2 17"
    using add_idempotent [OF a b, of "[(4, [12, 25])]" 2 17] by blast
  from a b c f e d g show ?thesis by blast
qed

section \<open>The loops of findByPrefix\<close>

lemma scan_prefix_takeWhile:
  "scan_prefix K m p it acc = acc @ takeWhile (\<lambda>e. starts_with K (fst e) p) (drop it m)"
proof (induction K m p it acc rule: scan_prefix.induct)
  case (1 K m p it acc)
  show ?case
  proof (cases "it < length m")
    case True
    then have d: "drop it m = m ! it # drop (Suc it) m"
      by (simp add: Cons_nth_drop_Suc)
    show ?thesis
    proof (cases "starts_with K (fst (m ! it)) p")
      case sw: True
      with True "1.IH" show ?thesis
        by (subst scan_prefix.simps) (simp add: d)
    next
      case False
      with True show ?thesis
        by (subst scan_prefix.simps) (simp add: d)
    qed
  next
    case False
    then show ?thesis
      by (subst scan_prefix.simps) simp
  qed
qed

lemma scan_lower_filter:
  "scan_lower K lower m p it acc =
     acc @ filter (\<lambda>e. starts_with K (lower (fst e)) (lower p)) (drop it m)"
proof (induction K lower m p it acc rule: scan_lower.induct)
  case (1 K lower m p it acc)
  show ?case
  proof (cases "it < length m")
    case True
    then have d: "drop it m = m ! it # drop (Suc it) m"
      by (simp add: Cons_nth_drop_Suc)
    from True "1.IH" show ?thesis
      by (subst scan_lower.simps) (simp add: d Let_def)
  next
    case False
    then show ?thesis
      by (subst scan_lower.simps) simp
  qed
qed

lemma drop_lower_bound:
  "drop (lower_bound mc m p) m = dropWhile (\<lambda>e. mc (fst e) p) m"
  by (simp add: lower_bound_def dropWhile_eq_drop)

section \<open>Strings\<close>

lemma string_starts_with_prefix: "string_starts_with s p \<longleftrightarrow> prefix p s"
proof
  assume "string_starts_with s p"
  then have "take (length p) s = p" by (simp add: string_starts_with_def)
  with take_is_prefix [of "length p" s] show "prefix p s" by simp
next
  assume "prefix p s"
  then obtain zs where "s = p @ zs" by (auto simp: prefix_def)
  then show "string_starts_with s p" by (simp add: string_starts_with_def)
qed

lemma prefix_not_less:
  fixes p k :: "'a::linorder list"
  shows "prefix p k \<Longrightarrow> \<not> k < p"
proof (induction p arbitrary: k)
  case Nil
  then show ?case by simp
next
  case (Cons a p)
  then show ?case by (cases k) auto
qed

lemma prefix_block:
  fixes p k1 k2 :: "'a::linorder list"
  shows "\<not> k1 < p \<Longrightarrow> \<not> prefix p k1 \<Longrightarrow> k1 < k2 \<Longrightarrow> \<not> prefix p k2"
proof (induction p arbitrary: k1 k2)
  case Nil
  then show ?case by simp
next
  case (Cons a p)
  show ?case
  proof (cases k1)
    case Nil
    with Cons.prems show ?thesis by simp
  next
    case k1: (Cons b1 l1)
    show ?thesis
    proof (cases k2)
      case Nil
      then show ?thesis by simp
    next
      case k2: (Cons b2 l2)
      from Cons.prems(1) k1 have ge: "a < b1 \<or> a = b1 \<and> \<not> l1 < p" by auto
      from Cons.prems(3) k1 k2 have lt: "b1 < b2 \<or> b1 = b2 \<and> l1 < l2" by simp
      show ?thesis
      proof (cases "a = b2")
        case True
        with ge lt have "a = b1" and "\<not> l1 < p" and "l1 < l2" by auto
        moreover from \<open>a = b1\<close> Cons.prems(2) k1 have "\<not> prefix p l1" by simp
        ultimately have "\<not> prefix p l2" by (rule_tac Cons.IH)
        with k2 show ?thesis by simp
      next
        case False
        with k2 show ?thesis by simp
      qed
    qed
  qed
qed

section \<open>Prefix search\<close>

lemma takeWhile_prefix_filter:
  fixes m :: "('a::linorder list \<times> 'b) list"
  shows "sorted_wrt (<) (map fst m) \<Longrightarrow> \<forall>e \<in> set m. \<not> fst e < p
           \<Longrightarrow> takeWhile (\<lambda>e. prefix p (fst e)) m = filter (\<lambda>e. prefix p (fst e)) m"
proof (induction m)
  case Nil
  then show ?case by simp
next
  case (Cons a as)
  then have IH: "takeWhile (\<lambda>e. prefix p (fst e)) as = filter (\<lambda>e. prefix p (fst e)) as"
    and as: "\<forall>e \<in> set as. fst a < fst e" and a: "\<not> fst a < p"
    by simp_all
  show ?case
  proof (cases "prefix p (fst a)")
    case True
    with IH show ?thesis by simp
  next
    case False
    with a as have "\<forall>e \<in> set as. \<not> prefix p (fst e)"
      using prefix_block [of "fst a" p] by blast
    then have "filter (\<lambda>e. prefix p (fst e)) as = []"
      by (simp add: filter_empty_conv)
    with False show ?thesis by simp
  qed
qed

lemma dropWhile_takeWhile_prefix:
  fixes m :: "('a::linorder list \<times> 'b) list"
  shows "sorted_wrt (<) (map fst m)
           \<Longrightarrow> takeWhile (\<lambda>e. prefix p (fst e)) (dropWhile (\<lambda>e. fst e < p) m) =
               filter (\<lambda>e. prefix p (fst e)) m"
proof (induction m)
  case Nil
  then show ?case by simp
next
  case (Cons a as)
  then have IH: "takeWhile (\<lambda>e. prefix p (fst e)) (dropWhile (\<lambda>e. fst e < p) as) =
      filter (\<lambda>e. prefix p (fst e)) as"
    and as: "\<forall>e \<in> set as. fst a < fst e"
    by simp_all
  show ?case
  proof (cases "fst a < p")
    case True
    with prefix_not_less [of p "fst a"] have "\<not> prefix p (fst a)" by blast
    with True IH show ?thesis by simp
  next
    case False
    with as have "\<forall>e \<in> set (a # as). \<not> fst e < p" by auto
    with Cons.prems have "takeWhile (\<lambda>e. prefix p (fst e)) (a # as) =
        filter (\<lambda>e. prefix p (fst e)) (a # as)"
      by (rule takeWhile_prefix_filter)
    with False show ?thesis by simp
  qed
qed

lemma std_less_eq: "std_less = (<)"
  by (rule ext, rule ext) (simp add: std_less_def)

lemma keys_sorted_default:
  "keys_sorted default_MapCompare m \<longleftrightarrow> sorted_wrt (<) (map fst m)"
  by (simp only: keys_sorted_def default_MapCompare_def std_less_eq)

lemma findByPrefix_sensitive_takeWhile:
  "findByPrefix std_string mc m p True =
     Inr (takeWhile (\<lambda>e. prefix p (fst e)) (dropWhile (\<lambda>e. mc (fst e) p) m))"
  by (simp add: findByPrefix_def scan_prefix_takeWhile drop_lower_bound std_string_def
      string_starts_with_prefix)

lemma findByPrefix_sensitive_filter:
  "keys_sorted default_MapCompare m
     \<Longrightarrow> findByPrefix std_string default_MapCompare m p True =
         Inr (filter (\<lambda>e. prefix p (fst e)) m)"
  unfolding findByPrefix_sensitive_takeWhile keys_sorted_default
  by (simp only: default_MapCompare_def std_less_def dropWhile_takeWhile_prefix)

lemma keys_sorted_filter: "keys_sorted mc m \<Longrightarrow> keys_sorted mc (filter P m)"
  by (induction m) (auto simp: keys_sorted_def)

text \<open>
  Claim C2. In a container over \<open>std::string\<close> keys whose keys are in the order of the
  default comparator, \<open>findByPrefix(p, true)\<close> returns the entries whose key has the
  prefix \<open>p\<close>, all of them and no other, each as it is stored, with the keys ascending;
  and what it returns is the longest run of keys that start with \<open>p\<close>, taken from the
  position of the lower bound of \<open>p\<close>. The containers built by the operations have
  their keys in that order (\<open>keys_sorted_run_default\<close>).
\<close>

theorem findByPrefix_case_sensitive:
  assumes "keys_sorted default_MapCompare m"
  shows "findByPrefix std_string default_MapCompare m p True =
           Inr (filter (\<lambda>e. prefix p (fst e)) m) \<and>
         (\<exists>r. findByPrefix std_string default_MapCompare m p True = Inr r \<and>
              sorted_wrt (<) (map fst r)) \<and>
         findByPrefix std_string default_MapCompare m p True =
           Inr (takeWhile (\<lambda>e. string_starts_with (fst e) p)
             (drop (lower_bound default_MapCompare m p) m))"
proof -
  have a: "findByPrefix std_string default_MapCompare m p True =
      Inr (filter (\<lambda>e. prefix p (fst e)) m)"
    using assms by (rule findByPrefix_sensitive_filter)
  from assms have "keys_sorted default_MapCompare (filter (\<lambda>e. prefix p (fst e)) m)"
    by (rule keys_sorted_filter)
  then have "sorted_wrt (<) (map fst (filter (\<lambda>e. prefix p (fst e)) m))"
    by (simp only: keys_sorted_default)
  with a have b: "\<exists>r. findByPrefix std_string default_MapCompare m p True = Inr r \<and>
      sorted_wrt (<) (map fst r)"
    by blast
  have c: "findByPrefix std_string default_MapCompare m p True =
      Inr (takeWhile (\<lambda>e. string_starts_with (fst e) p)
        (drop (lower_bound default_MapCompare m p) m))"
    by (simp add: findByPrefix_def scan_prefix_takeWhile std_string_def)
  show ?thesis by (rule conjI [OF a conjI [OF b c]])
qed

theorem findByPrefix_case_sensitive_witness:
  "keys_sorted default_MapCompare
     [(''apple'', [1 :: nat]), (''application'', [2]), (''apply'', [3, 4]), (''banana'', [5])] \<and>
   findByPrefix std_string default_MapCompare
     [(''apple'', [1 :: nat]), (''application'', [2]), (''apply'', [3, 4]), (''banana'', [5])]
     ''app'' True =
     Inr [(''apple'', [1]), (''application'', [2]), (''apply'', [3, 4])] \<and>
   findByPrefix std_string default_MapCompare
     [(''apple'', [1 :: nat]), (''application'', [2]), (''apply'', [3, 4]), (''banana'', [5])]
     ''ban'' True = Inr [(''banana'', [5])] \<and>
   findByPrefix std_string default_MapCompare
     [(''apple'', [1 :: nat]), (''application'', [2]), (''apply'', [3, 4]), (''banana'', [5])]
     ''zz'' True = Inr []"
proof -
  let ?m = "[(''apple'', [1 :: nat]), (''application'', [2]), (''apply'', [3, 4]), (''banana'', [5])]"
  have a: "keys_sorted default_MapCompare ?m"
    by (simp add: keys_sorted_default)
  have b: "findByPrefix std_string default_MapCompare ?m ''app'' True =
      Inr [(''apple'', [1]), (''application'', [2]), (''apply'', [3, 4])]"
    using findByPrefix_case_sensitive [OF a, of "''app''", THEN conjunct1] by simp
  have c: "findByPrefix std_string default_MapCompare ?m ''ban'' True = Inr [(''banana'', [5])]"
    using findByPrefix_case_sensitive [OF a, of "''ban''", THEN conjunct1] by simp
  have d: "findByPrefix std_string default_MapCompare ?m ''zz'' True = Inr []"
    using findByPrefix_case_sensitive [OF a, of "''zz''", THEN conjunct1] by simp
  from a b c d show ?thesis by blast
qed

text \<open>
  Claim C3. In a container over \<open>std::string\<close> keys, \<open>findByPrefix(p, false)\<close> returns
  the entries whose key, with its letters in lower case, has the prefix \<open>p\<close> with its
  letters in lower case, all of them and no other, each as it is stored (the key in its
  own case); when the keys of the container are in the order of the key comparator, so
  are the keys returned.
\<close>

theorem findByPrefix_case_insensitive:
  "findByPrefix std_string mc m p False =
     Inr (filter (\<lambda>e. prefix (map tolower p) (map tolower (fst e))) m) \<and>
   (keys_sorted mc m \<longrightarrow>
      (\<exists>r. findByPrefix std_string mc m p False = Inr r \<and> sorted_wrt mc (map fst r)))"
proof -
  have a: "findByPrefix std_string mc m p False =
      Inr (filter (\<lambda>e. prefix (map tolower p) (map tolower (fst e))) m)"
    by (simp add: findByPrefix_def scan_lower_filter std_string_def string_starts_with_prefix)
  have "sorted_wrt mc (map fst (filter (\<lambda>e. prefix (map tolower p) (map tolower (fst e))) m))"
    if "keys_sorted mc m"
    using keys_sorted_filter [OF that] by (simp only: keys_sorted_def)
  with a have b: "keys_sorted mc m \<longrightarrow>
      (\<exists>r. findByPrefix std_string mc m p False = Inr r \<and> sorted_wrt mc (map fst r))"
    by blast
  show ?thesis by (rule conjI [OF a b])
qed

theorem findByPrefix_case_insensitive_witness:
  "keys_sorted default_MapCompare
     [(''APPLICATION'', [2 :: nat]), (''Apple'', [3]), (''apply'', [4, 5]), (''banana'', [6])] \<and>
   findByPrefix std_string default_MapCompare
     [(''APPLICATION'', [2 :: nat]), (''Apple'', [3]), (''apply'', [4, 5]), (''banana'', [6])]
     ''aPp'' False =
     Inr [(''APPLICATION'', [2]), (''Apple'', [3]), (''apply'', [4, 5])] \<and>
   (\<exists>r. findByPrefix std_string default_MapCompare
     [(''APPLICATION'', [2 :: nat]), (''Apple'', [3]), (''apply'', [4, 5]), (''banana'', [6])]
     ''aPp'' False = Inr r \<and> sorted_wrt default_MapCompare (map fst r))"
proof -
  let ?m = "[(''APPLICATION'', [2 :: nat]), (''Apple'', [3]), (''apply'', [4, 5]), (''banana'', [6])]"
  have a: "keys_sorted default_MapCompare ?m"
    by (simp add: keys_sorted_default)
  have l: "map tolower ''aPp'' = ''app''" "map tolower ''APPLICATION'' = ''application''"
    "map tolower ''Apple'' = ''apple''" "map tolower ''apply'' = ''apply''"
    "map tolower ''banana'' = ''banana''"
    by code_simp+
  have b: "findByPrefix std_string default_MapCompare ?m ''aPp'' False =
      Inr [(''APPLICATION'', [2]), (''Apple'', [3]), (''apply'', [4, 5])]"
    using findByPrefix_case_insensitive [of default_MapCompare ?m "''aPp''", THEN conjunct1]
    by (simp only: filter.simps fst_conv l) simp
  have c: "\<exists>r. findByPrefix std_string default_MapCompare ?m ''aPp'' False = Inr r \<and>
      sorted_wrt default_MapCompare (map fst r)"
    using findByPrefix_case_insensitive [of default_MapCompare ?m "''aPp''", THEN conjunct2] a
    by blast
  show ?thesis by (rule conjI [OF a conjI [OF b c]])
qed

text \<open>
  A key type that is not \<open>std::string\<close> and has the conversion, such as a class of the
  caller's with a \<open>starts_with\<close> and iterators to its characters: the case-insensitive
  search returns the empty vector.
\<close>

lemma findByPrefix_other_key_type:
  "\<not> is_std_string K \<Longrightarrow> transform_tolower K = Some lower
     \<Longrightarrow> findByPrefix K mc m p False = Inr []"
  by (simp add: findByPrefix_def)

text \<open>
  Claim C9. The claim is that for every key type with a \<open>starts_with\<close> other than
  \<open>std::string\<close> the call \<open>findByPrefix(p, false)\<close> returns the empty sequence without
  failing. \<^verbatim>\<open>std::string_view\<close> is such a key type, and for it the call has no
  result: the conversion to lower case under the test on the key type is compiled all
  the same and writes through a \<^verbatim>\<open>const_iterator\<close>, so the program is rejected, with
  \<open>caseSensitive\<close> false and with \<open>caseSensitive\<close> true.
\<close>

theorem findByPrefix_string_view_ill_formed:
  "\<not> is_std_string std_string_view \<and>
   findByPrefix std_string_view default_MapCompare [(''apple'', [''x''])] ''app'' False =
     Inl Ill_formed \<and>
   findByPrefix std_string_view default_MapCompare [(''apple'', [''x''])] ''app'' True =
     Inl Ill_formed \<and>
   findByPrefix std_string_view default_MapCompare [(''apple'', [''x''])] ''app'' False \<noteq>
     Inr []"
  by (simp add: findByPrefix_def std_string_view_def)

text \<open>
  Claim C10. In a container over \<open>std::string\<close> keys whose keys are in the order of the
  default comparator, \<open>findByPrefix("", true)\<close> returns every entry of the container, in
  the container's order, which is ascending in the keys.
\<close>

theorem findByPrefix_empty_prefix:
  assumes "keys_sorted default_MapCompare m"
  shows "findByPrefix std_string default_MapCompare m [] True = Inr m \<and>
         (\<exists>r. findByPrefix std_string default_MapCompare m [] True = Inr r \<and>
              sorted_wrt (<) (map fst r))"
proof -
  have a: "findByPrefix std_string default_MapCompare m [] True = Inr m"
    by (simp add: findByPrefix_sensitive_takeWhile default_MapCompare_def std_less_def)
  from assms have "sorted_wrt (<) (map fst m)"
    by (simp only: keys_sorted_default)
  with a have b: "\<exists>r. findByPrefix std_string default_MapCompare m [] True = Inr r \<and>
      sorted_wrt (<) (map fst r)"
    by blast
  show ?thesis by (rule conjI [OF a b])
qed

theorem findByPrefix_empty_prefix_witness:
  "keys_sorted default_MapCompare
     [(''APPLICATION'', [2 :: nat]), (''Apple'', [3]), (''apply'', [4, 5]), (''banana'', [6])] \<and>
   findByPrefix std_string default_MapCompare
     [(''APPLICATION'', [2 :: nat]), (''Apple'', [3]), (''apply'', [4, 5]), (''banana'', [6])]
     [] True =
     Inr [(''APPLICATION'', [2]), (''Apple'', [3]), (''apply'', [4, 5]), (''banana'', [6])] \<and>
   (\<exists>r. findByPrefix std_string default_MapCompare
     [(''APPLICATION'', [2 :: nat]), (''Apple'', [3]), (''apply'', [4, 5]), (''banana'', [6])]
     [] True = Inr r \<and> sorted_wrt (<) (map fst r))"
proof -
  have a: "keys_sorted default_MapCompare
      [(''APPLICATION'', [2 :: nat]), (''Apple'', [3]), (''apply'', [4, 5]), (''banana'', [6])]"
    by (simp add: keys_sorted_default)
  show ?thesis
    by (rule conjI [OF a findByPrefix_empty_prefix [OF a]])
qed

section \<open>The default comparators\<close>

lemma default_SetCompare_same_type:
  "default_SetCompare (\<lambda>v. v) = (std_less :: 'k::ord compare)"
  by (rule ext, rule ext) (simp add: default_SetCompare_def)

text \<open>
  Claim C4. The claim is that the default \<open>SetCompare\<close> is the ascending order of the
  value type. The code's default is \<^verbatim>\<open>std::less<Key>\<close>. In
  \<^verbatim>\<open>MultiSetMap<unsigned int, unsigned long long>\<close> the values \<open>0\<close> and \<open>4294967296\<close> differ
  in the order of the value type, and the default comparator cannot tell them apart:
  after \<open>add(1, 0)\<close> and \<open>add(1, 4294967296)\<close> the set of key \<open>1\<close> holds \<open>0\<close> alone, and
  after \<open>add(1, 5)\<close> and \<open>add(1, 4294967296)\<close> it holds \<open>4294967296\<close> before \<open>5\<close>.
\<close>

theorem default_SetCompare_converts_to_key:
  "(0 :: 64 word) < 4294967296 \<and>
   \<not> default_SetCompare to_unsigned_int 0 4294967296 \<and>
   equivalent (default_SetCompare to_unsigned_int) 0 4294967296 \<and>
   find_by_key default_MapCompare
     (add default_MapCompare (default_SetCompare to_unsigned_int)
        (add default_MapCompare (default_SetCompare to_unsigned_int) [] (1 :: 32 word) 0)
        1 4294967296) 1 = [0] \<and>
   find_by_key default_MapCompare
     (add default_MapCompare (default_SetCompare to_unsigned_int)
        (add default_MapCompare (default_SetCompare to_unsigned_int) [] (1 :: 32 word) 5)
        1 4294967296) 1 = [4294967296, 5]"
proof -
  have c: "to_unsigned_int 4294967296 = 0" "to_unsigned_int 0 = 0" "to_unsigned_int 5 = 5"
    by (simp_all add: to_unsigned_int_def)
  have a: "(0 :: 64 word) < 4294967296" by simp
  have b: "\<not> default_SetCompare to_unsigned_int 0 4294967296"
    by (simp add: default_SetCompare_def std_less_def c)
  have e: "equivalent (default_SetCompare to_unsigned_int) 0 4294967296"
    by (simp add: equivalent_def default_SetCompare_def std_less_def c)
  have d: "find_by_key default_MapCompare
     (add default_MapCompare (default_SetCompare to_unsigned_int)
        (add default_MapCompare (default_SetCompare to_unsigned_int) [] (1 :: 32 word) 0)
        1 4294967296) 1 = [0]"
    by (simp add: add_Nil add_Cons find_by_key_Cons set_insert_Cons set_insert_Nil
        default_MapCompare_def default_SetCompare_def std_less_def c)
  have f: "find_by_key default_MapCompare
     (add default_MapCompare (default_SetCompare to_unsigned_int)
        (add default_MapCompare (default_SetCompare to_unsigned_int) [] (1 :: 32 word) 5)
        1 4294967296) 1 = [4294967296, 5]"
    by (simp add: add_Nil add_Cons find_by_key_Cons set_insert_Cons set_insert_Nil
        default_MapCompare_def default_SetCompare_def std_less_def c)
  from a b e d f show ?thesis by blast
qed

end
